theory Spec2Isabelle
  imports Main "HOL-Library.Multiset" "HOL-Library.Product_Lexorder"
begin

section \<open>ReadDepthCalculator: data model\<close>

text \<open>
  A read is the tuple \<open>(pos, len)\<close> of two Python integers (unbounded, hence \<open>int\<close>).
  Python lists are mutable objects handled by reference: the engine's attributes
  \<open>self.reads\<close>, \<open>self.loci\<close> and \<open>self.depths\<close> hold references, and the
  lists themselves live in a store that maps addresses to list contents.
\<close>

type_synonym read = "int \<times> int"
type_synonym addr = nat

datatype error = IndexError

record store =
  read_lists :: "addr \<Rightarrow> read list"
  int_lists :: "addr \<Rightarrow> int list"
  next_addr :: addr

record engine =
  reads :: addr
  loci :: addr
  depths :: addr

subsection \<open>Python list primitives\<close>

text \<open>
  \<open>xs[i]\<close> in Python: an index in \<open>[0, len)\<close> is used as it is, an index in
  \<open>[-len, 0)\<close> counts from the end, any other index raises IndexError.
\<close>

definition list_index :: "'a list \<Rightarrow> int \<Rightarrow> error + nat" where
  "list_index xs i =
     (if 0 \<le> i \<and> i < int (length xs) then Inr (nat i)
      else if - int (length xs) \<le> i \<and> i < 0 then Inr (nat (int (length xs) + i))
      else Inl IndexError)"

definition list_getitem :: "'a list \<Rightarrow> int \<Rightarrow> error + 'a" where
  "list_getitem xs i =
     (case list_index xs i of Inl err \<Rightarrow> Inl err | Inr k \<Rightarrow> Inr (xs ! k))"

definition list_setitem :: "'a list \<Rightarrow> int \<Rightarrow> 'a \<Rightarrow> error + 'a list" where
  "list_setitem xs i v =
     (case list_index xs i of Inl err \<Rightarrow> Inl err | Inr k \<Rightarrow> Inr (xs[k := v]))"

text \<open>\<open>xs[i] += d\<close>: read the item, add, store it back at the same index.\<close>

definition list_iadd_item :: "int list \<Rightarrow> int \<Rightarrow> int \<Rightarrow> error + int list" where
  "list_iadd_item xs i d =
     (case list_getitem xs i of
        Inl err \<Rightarrow> Inl err
      | Inr v \<Rightarrow> list_setitem xs i (v + d))"

text \<open>Allocation of a new list object (a list display or \<open>[0] * n\<close>).\<close>

definition new_read_list :: "store \<Rightarrow> read list \<Rightarrow> store \<times> addr" where
  "new_read_list s xs =
     (s\<lparr>read_lists := (read_lists s)(next_addr s := xs), next_addr := Suc (next_addr s)\<rparr>,
      next_addr s)"

definition new_int_list :: "store \<Rightarrow> int list \<Rightarrow> store \<times> addr" where
  "new_int_list s xs =
     (s\<lparr>int_lists := (int_lists s)(next_addr s := xs), next_addr := Suc (next_addr s)\<rparr>,
      next_addr s)"

section \<open>The class ReadDepthCalculator\<close>

text \<open>
  \<open>def __init__(self, reads=[], loci=[])\<close>: the two default lists are built once, when
  the \<open>def\<close> is executed at module load, and every call that omits the argument
  receives that same object. \<open>module_store\<close> is the store right after module load.
\<close>

definition default_reads :: addr where
  "default_reads = 0"

definition default_loci :: addr where
  "default_loci = 1"

definition module_store :: store where
  "module_store = \<lparr>read_lists = (\<lambda>_. []), int_lists = (\<lambda>_. []), next_addr = 2\<rparr>"

text \<open>
  \<open>__init__\<close>: \<open>self.reads = reads; self.loci = loci; self.depths = []\<close>. An omitted
  argument is \<open>None\<close> here and stands for the default object; \<open>self.depths\<close> is a
  new list.
\<close>

definition init :: "store \<Rightarrow> addr option \<Rightarrow> addr option \<Rightarrow> store \<times> engine" where
  "init s reads_arg loci_arg =
     (let r = (case reads_arg of None \<Rightarrow> default_reads | Some a \<Rightarrow> a);
          l = (case loci_arg of None \<Rightarrow> default_loci | Some a \<Rightarrow> a);
          (s', d) = new_int_list s []
      in (s', \<lparr>reads = r, loci = l, depths = d\<rparr>))"

text \<open>\<open>self.reads += readslist\<close> extends the list object in place.\<close>

definition addReads :: "store \<Rightarrow> engine \<Rightarrow> read list \<Rightarrow> store" where
  "addReads s e readslist =
     s\<lparr>read_lists := (read_lists s)(reads e := read_lists s (reads e) @ readslist)\<rparr>"

definition addLoci :: "store \<Rightarrow> engine \<Rightarrow> int list \<Rightarrow> store" where
  "addLoci s e locilist =
     s\<lparr>int_lists := (int_lists s)(loci e := int_lists s (loci e) @ locilist)\<rparr>"

definition getReads :: "store \<Rightarrow> engine \<Rightarrow> read list" where
  "getReads s e = read_lists s (reads e)"

definition getLoci :: "store \<Rightarrow> engine \<Rightarrow> int list" where
  "getLoci s e = int_lists s (loci e)"

definition getDepths :: "store \<Rightarrow> engine \<Rightarrow> int list" where
  "getDepths s e = int_lists s (depths e)"

text \<open>
  The depth at one locus is read as \<open>self.depths[row[0]]\<close> (populateLociCSVDepthField)
  or \<open>rdc.getDepths()[l]\<close> (the tests): plain list indexing.
\<close>

definition depthAt :: "store \<Rightarrow> engine \<Rightarrow> int \<Rightarrow> error + int" where
  "depthAt s e locus = list_getitem (getDepths s e) locus"

text \<open>
  \<open>self.reads.sort(key=itemgetter(0,1))\<close>: a stable in-place sort on the key
  \<open>(pair[0], pair[1])\<close>, tuples compared lexicographically.
\<close>

definition preprocessReadData :: "store \<Rightarrow> engine \<Rightarrow> store" where
  "preprocessReadData s e =
     s\<lparr>read_lists := (read_lists s)
        (reads e := sort_key (\<lambda>pair. (fst pair, snd pair)) (read_lists s (reads e)))\<rparr>"

fun getMaxPosition_loop :: "read list \<Rightarrow> int \<Rightarrow> int" where
  "getMaxPosition_loop [] maximum = maximum"
| "getMaxPosition_loop (pair # rs) maximum =
     getMaxPosition_loop rs
       (if fst pair + snd pair > maximum then fst pair + snd pair else maximum)"

definition getMaxPosition :: "read list \<Rightarrow> int" where
  "getMaxPosition rs = getMaxPosition_loop rs 0"

text \<open>
  The first loop of calculateDepth:
  \<open>tally[pair[0]] += 1; tally[pair[0] + pair[1]] -= 1\<close> for every pair.
\<close>

fun tally_loop :: "read list \<Rightarrow> int list \<Rightarrow> error + int list" where
  "tally_loop [] tally = Inr tally"
| "tally_loop (pair # rs) tally =
     (case list_iadd_item tally (fst pair) 1 of
        Inl err \<Rightarrow> Inl err
      | Inr tally1 \<Rightarrow>
          (case list_iadd_item tally1 (fst pair + snd pair) (- 1) of
             Inl err \<Rightarrow> Inl err
           | Inr tally2 \<Rightarrow> tally_loop rs tally2))"

text \<open>
  The second loop: \<open>sums[i] = tally[i] + prior; prior = sums[i]\<close> for \<open>i\<close> in
  \<open>range(len(tally))\<close>. After \<open>sums = tally\<close> both names denote one list object, so
  the loop reads and writes the same list, threaded here as \<open>sums\<close>.
\<close>

fun sums_loop :: "int list \<Rightarrow> int list \<Rightarrow> int \<Rightarrow> error + int list" where
  "sums_loop [] sums prior = Inr sums"
| "sums_loop (i # rng) sums prior =
     (case list_getitem sums i of
        Inl err \<Rightarrow> Inl err
      | Inr v \<Rightarrow>
          (case list_setitem sums i (v + prior) of
             Inl err \<Rightarrow> Inl err
           | Inr sums1 \<Rightarrow>
               (case list_getitem sums1 i of
                  Inl err \<Rightarrow> Inl err
                | Inr p \<Rightarrow> sums_loop rng sums1 p)))"

text \<open>
  calculateDepth. The list \<open>tally\<close> is local until the last statement
  \<open>self.depths = sums\<close> makes it the engine's depths; an exception before that leaves the
  engine with its sorted reads and its old depths. The result is the outcome (an
  exception or a normal return) with the store and the engine after the call.
\<close>

definition calculateDepth :: "store \<Rightarrow> engine \<Rightarrow> (error + unit) \<times> store \<times> engine" where
  "calculateDepth s e =
     (let s1 = preprocessReadData s e;
          rs = read_lists s1 (reads e);
          tally = replicate (nat (getMaxPosition rs + 1)) (0::int)
      in case tally_loop rs tally of
           Inl err \<Rightarrow> (Inl err, s1, e)
         | Inr tally1 \<Rightarrow>
             (case sums_loop (map int [0..<length tally1]) tally1 0 of
                Inl err \<Rightarrow> (Inl err, s1, e)
              | Inr sums \<Rightarrow>
                  (let (s2, a) = new_int_list s1 sums
                   in (Inr (), s2, e\<lparr>depths := a\<rparr>))))"

section \<open>Reference notions of the specification\<close>

text \<open>
  The brute-force oracle: the number of intervals \<open>(st, l)\<close> of the ReadSet with
  \<open>st \<le> p < st + l\<close>.
\<close>

definition covering_count :: "read list \<Rightarrow> int \<Rightarrow> int" where
  "covering_count rs p = int (length (filter (\<lambda>(st, l). st \<le> p \<and> p < st + l) rs))"

text \<open>The largest \<open>start + length\<close> over the ReadSet, or 0 if the ReadSet is empty.\<close>

definition maxEnd_spec :: "read list \<Rightarrow> int" where
  "maxEnd_spec rs = (if rs = [] then 0 else Max (set (map (\<lambda>(st, l). st + l) rs)))"

text \<open>Every interval has a non-negative start and a non-negative length.\<close>

definition nonneg_reads :: "read list \<Rightarrow> bool" where
  "nonneg_reads rs = list_all (\<lambda>(st, l). 0 \<le> st \<and> 0 \<le> l) rs"

text \<open>The running prefix sums of a delta array, started at \<open>p\<close>.\<close>

fun running_sums :: "int \<Rightarrow> int list \<Rightarrow> int list" where
  "running_sums p [] = []"
| "running_sums p (x # xs) = (x + p) # running_sums (x + p) xs"

text \<open>The contents of the engine's read list once preprocessReadData has run.\<close>

definition sorted_reads :: "store \<Rightarrow> engine \<Rightarrow> read list" where
  "sorted_reads s e = sort_key (\<lambda>pair. (fst pair, snd pair)) (getReads s e)"

section \<open>Scenarios of the test suite\<close>

text \<open>
  test_depth_calculations:
  \<open>rdc = ReadDepthCalculator(testReads, testLoci)\<close> with
  \<open>testReads = [(10,30),(20,40)]\<close> and \<open>testLoci = [5,15,30]\<close>.
\<close>

definition test_depth_calculations_rdc :: "store \<times> engine" where
  "test_depth_calculations_rdc =
     (let (s1, testReads) = new_read_list module_store [(10, 30), (20, 40)];
          (s2, testLoci) = new_int_list s1 [5, 15, 30]
      in init s2 (Some testReads) (Some testLoci))"

text \<open>\<open>rdc = ReadDepthCalculator([],[])\<close>, as the tests build an engine without data.\<close>

definition empty_rdc :: "store \<times> engine" where
  "empty_rdc =
     (let (s1, r) = new_read_list module_store [];
          (s2, l) = new_int_list s1 []
      in init s2 (Some r) (Some l))"

text \<open>
  test_data_preprocessing: \<open>rdc = ReadDepthCalculator([],[])\<close>, then
  \<open>rdc.addReads([(20,40),(10,30),(20,10)])\<close>.
\<close>

definition test_data_preprocessing_rdc :: "store \<times> engine" where
  "test_data_preprocessing_rdc =
     (let (s0, rdc) = empty_rdc in (addReads s0 rdc [(20, 40), (10, 30), (20, 10)], rdc))"

section \<open>Further scenarios\<close>

text \<open>An engine that was handed one read with a negative start.\<close>

definition negative_start_rdc :: "store \<times> engine" where
  "negative_start_rdc = (let (s0, rdc) = empty_rdc in (addReads s0 rdc [(- 1, 1)], rdc))"

text \<open>
  An engine that has computed the depths of \<open>[(0,1)]\<close> and was then handed the read
  \<open>(5,-3)\<close>, before calculateDepth is called again.
\<close>

definition recomputed_rdc :: "store \<times> engine" where
  "recomputed_rdc =
     (let (s0, rdc) = empty_rdc;
          s1 = addReads s0 rdc [(0, 1)];
          (res, s2, rdc2) = calculateDepth s1 rdc
      in (addReads s2 rdc2 [(5, - 3)], rdc2))"

text \<open>
  \<open>a = ReadDepthCalculator(); b = ReadDepthCalculator()\<close> right after module load, the
  construction that \<open>main\<close> uses.
\<close>

definition two_default_rdcs :: "store \<times> engine \<times> engine" where
  "two_default_rdcs =
     (let (s1, a) = init module_store None None;
          (s2, b) = init s1 None None
      in (s2, a, b))"

text \<open>
  The calls a client can make on an engine without computing depths, and a sequence of them
  run on one engine.
\<close>

datatype call = AddReads "read list" | AddLoci "int list" | PreprocessReadData

fun run_call :: "engine \<Rightarrow> store \<Rightarrow> call \<Rightarrow> store" where
  "run_call e s (AddReads readslist) = addReads s e readslist"
| "run_call e s (AddLoci locilist) = addLoci s e locilist"
| "run_call e s PreprocessReadData = preprocessReadData s e"

definition run_calls :: "store \<Rightarrow> engine \<Rightarrow> call list \<Rightarrow> store" where
  "run_calls s e calls = foldl (run_call e) s calls"

section \<open>Python list primitives: basic facts\<close>

lemma list_index_nonneg:
  "0 \<le> i \<Longrightarrow> i < int (length xs) \<Longrightarrow> list_index xs i = Inr (nat i)"
  by (simp add: list_index_def)

lemma list_index_error_iff:
  "list_index xs i = Inl err \<longleftrightarrow> \<not> (- int (length xs) \<le> i \<and> i < int (length xs))"
  by (cases err) (auto simp: list_index_def)

lemma list_index_less:
  "list_index xs i = Inr k \<Longrightarrow> k < length xs"
  by (auto simp: list_index_def split: if_splits)

lemma list_iadd_item_length:
  "list_iadd_item xs i d = Inr ys \<Longrightarrow> length ys = length xs"
  by (auto simp: list_iadd_item_def list_getitem_def list_setitem_def split: sum.splits)

lemma list_iadd_item_error_iff:
  "list_iadd_item xs i d = Inl err \<longleftrightarrow> \<not> (- int (length xs) \<le> i \<and> i < int (length xs))"
  by (cases err) (auto simp: list_iadd_item_def list_getitem_def list_setitem_def list_index_def split: sum.splits)

lemma list_iadd_item_nonneg:
  "0 \<le> i \<Longrightarrow> i < int (length xs) \<Longrightarrow>
     list_iadd_item xs i d = Inr (xs[nat i := xs ! nat i + d])"
  by (simp add: list_iadd_item_def list_getitem_def list_setitem_def list_index_nonneg)

section \<open>The prefix-sum loop\<close>

lemma length_running_sums [simp]: "length (running_sums p xs) = length xs"
  by (induction xs arbitrary: p) auto

lemma running_sums_nth:
  "k < length xs \<Longrightarrow> running_sums p xs ! k = p + sum_list (take (Suc k) xs)"
proof (induction xs arbitrary: p k)
  case Nil
  then show ?case by simp
next
  case (Cons x xs)
  show ?case
  proof (cases k)
    case 0
    then show ?thesis by simp
  next
    case (Suc j)
    with Cons.prems have "j < length xs" by simp
    from Cons.IH [OF this, of "x + p"] Suc show ?thesis by simp
  qed
qed

lemma sums_loop_from:
  "i \<le> length t \<Longrightarrow>
     sums_loop (map int [i..<length t]) t p = Inr (take i t @ running_sums p (drop i t))"
proof (induction "length t - i" arbitrary: i t p)
  case 0
  then show ?case by simp
next
  case (Suc n)
  then have lt: "i < length t" by simp
  let ?t = "t[i := t ! i + p]"
  have rng: "[i..<length t] = i # [Suc i..<length t]"
    using lt by (simp add: upt_conv_Cons)
  have step: "sums_loop (map int [i..<length t]) t p
      = sums_loop (map int [Suc i..<length ?t]) ?t (t ! i + p)"
    using lt by (simp add: rng list_getitem_def list_setitem_def list_index_nonneg)
  have "n = length ?t - Suc i" using Suc.hyps(2) by simp
  moreover have "Suc i \<le> length ?t" using lt by simp
  ultimately have ih: "sums_loop (map int [Suc i..<length ?t]) ?t (t ! i + p)
      = Inr (take (Suc i) ?t @ running_sums (t ! i + p) (drop (Suc i) ?t))"
    by (rule Suc.hyps(1))
  have tk: "take (Suc i) ?t = take i t @ [t ! i + p]"
    using lt by (simp add: take_Suc_conv_app_nth)
  have dr: "drop i t = t ! i # drop (Suc i) t"
    using lt by (simp add: Cons_nth_drop_Suc)
  show ?case
    unfolding step ih tk by (simp add: dr)
qed

lemma sums_loop_all:
  "sums_loop (map int [0..<length t]) t 0 = Inr (running_sums 0 t)"
  using sums_loop_from [of 0 t 0] by simp

lemma sum_list_take_update:
  "a < length xs \<Longrightarrow>
     sum_list (take m (xs[a := xs ! a + d])) = sum_list (take m xs) + (if a < m then d else (0::int))"
proof (induction xs arbitrary: a m)
  case Nil
  then show ?case by simp
next
  case (Cons x xs)
  show ?case
  proof (cases m)
    case 0
    then show ?thesis by simp
  next
    case (Suc m')
    show ?thesis
    proof (cases a)
      case 0
      then show ?thesis using Suc by simp
    next
      case (Suc a')
      with Cons.prems have "a' < length xs" by simp
      from Cons.IH [OF this, of m'] show ?thesis using Suc \<open>m = Suc m'\<close> by simp
    qed
  qed
qed

section \<open>The maximum position and the tally loop\<close>

lemma covering_count_Cons:
  "covering_count (pair # rs) p =
     (if fst pair \<le> p \<and> p < fst pair + snd pair then 1 else 0) + covering_count rs p"
  by (simp add: covering_count_def split_beta)

lemma covering_count_Nil [simp]: "covering_count [] p = 0"
  by (simp add: covering_count_def)

lemma covering_count_mset:
  "mset rs = mset rs' \<Longrightarrow> covering_count rs p = covering_count rs' p"
proof -
  assume eq: "mset rs = mset rs'"
  have "\<And>xs. length (filter (\<lambda>(st, l). st \<le> p \<and> p < st + l) xs)
      = size (filter_mset (\<lambda>(st, l). st \<le> p \<and> p < st + l) (mset xs))"
    by (simp flip: mset_filter)
  then show ?thesis using eq by (simp add: covering_count_def)
qed

lemma getMaxPosition_loop_Max:
  "getMaxPosition_loop rs m = Max (insert m ((\<lambda>pair. fst pair + snd pair) ` set rs))"
proof (induction rs arbitrary: m)
  case Nil
  then show ?case by simp
next
  case (Cons pair rs)
  let ?E = "(\<lambda>pair. fst pair + snd pair) ` set rs"
  have fin: "finite ?E" by simp
  have "Max (insert (max m (fst pair + snd pair)) ?E)
      = Max (insert m (insert (fst pair + snd pair) ?E))"
  proof (cases "?E = {}")
    case True
    then show ?thesis by (simp add: max.commute)
  next
    case False
    then show ?thesis using fin by (simp add: max.assoc)
  qed
  moreover have "(if fst pair + snd pair > m then fst pair + snd pair else m)
      = max m (fst pair + snd pair)" by simp
  ultimately show ?case
    by (simp only: getMaxPosition_loop.simps Cons.IH list.set image_insert insert_commute)
qed

lemma getMaxPosition_upper:
  "pair \<in> set rs \<Longrightarrow> fst pair + snd pair \<le> getMaxPosition rs"
  by (simp add: getMaxPosition_def getMaxPosition_loop_Max)

lemma getMaxPosition_nonneg: "0 \<le> getMaxPosition rs"
  by (simp add: getMaxPosition_def getMaxPosition_loop_Max)

lemma getMaxPosition_set:
  "set rs = set rs' \<Longrightarrow> getMaxPosition rs = getMaxPosition rs'"
  by (simp add: getMaxPosition_def getMaxPosition_loop_Max)

lemma getMaxPosition_maxEnd_spec:
  assumes "nonneg_reads rs"
  shows "getMaxPosition rs = maxEnd_spec rs"
proof (cases rs)
  case Nil
  then show ?thesis by (simp add: getMaxPosition_def maxEnd_spec_def)
next
  case (Cons pair rs')
  let ?E = "(\<lambda>pair. fst pair + snd pair) ` set rs"
  have ne: "?E \<noteq> {}" and fin: "finite ?E" using Cons by simp_all
  have "\<forall>x\<in>?E. 0 \<le> x"
    using assms by (auto simp: nonneg_reads_def list_all_iff)
  then have "0 \<le> Max ?E" using ne fin by (meson Max_in)
  then have "Max (insert 0 ?E) = Max ?E"
    using ne fin by (simp add: max_def)
  moreover have "(\<lambda>(st, l). st + l) = (\<lambda>pair :: read. fst pair + snd pair)"
    by (simp add: fun_eq_iff)
  ultimately show ?thesis
    using Cons by (simp add: getMaxPosition_def getMaxPosition_loop_Max maxEnd_spec_def)
qed

lemma tally_loop_prefix:
  assumes "\<forall>pair\<in>set rs. 0 \<le> fst pair \<and> 0 \<le> snd pair \<and> fst pair + snd pair < int (length t)"
  shows "\<exists>t'. tally_loop rs t = Inr t' \<and> length t' = length t \<and>
     (\<forall>k. sum_list (take (Suc k) t') = sum_list (take (Suc k) t) + covering_count rs (int k))"
  using assms
proof (induction rs arbitrary: t)
  case Nil
  then show ?case by simp
next
  case (Cons pair rs)
  obtain st l where pair: "pair = (st, l)" by (cases pair)
  from Cons.prems pair have b: "0 \<le> st" "0 \<le> l" "st + l < int (length t)" by simp_all
  let ?t1 = "t[nat st := t ! nat st + 1]"
  let ?t2 = "?t1[nat (st + l) := ?t1 ! nat (st + l) + (- 1)]"
  have s1: "list_iadd_item t st 1 = Inr ?t1"
    using b by (simp add: list_iadd_item_nonneg)
  have s2: "list_iadd_item ?t1 (st + l) (- 1) = Inr ?t2"
    using b by (simp add: list_iadd_item_nonneg)
  have step: "tally_loop (pair # rs) t = tally_loop rs ?t2"
    by (simp add: pair s1 s2)
  have "\<forall>pair\<in>set rs. 0 \<le> fst pair \<and> 0 \<le> snd pair \<and> fst pair + snd pair < int (length ?t2)"
    using Cons.prems by simp
  from Cons.IH [OF this] obtain t' where t': "tally_loop rs ?t2 = Inr t'" "length t' = length t"
    and ih: "\<And>k. sum_list (take (Suc k) t') = sum_list (take (Suc k) ?t2) + covering_count rs (int k)"
    by auto
  have a1: "nat st < length t" and a2: "nat (st + l) < length ?t1" using b by simp_all
  have pre: "sum_list (take (Suc k) ?t2)
      = sum_list (take (Suc k) t) + (if st \<le> int k \<and> int k < st + l then 1 else 0)" for k
  proof -
    have "sum_list (take (Suc k) ?t2)
        = sum_list (take (Suc k) ?t1) + (if nat (st + l) < Suc k then - 1 else 0)"
      by (rule sum_list_take_update [OF a2])
    also have "sum_list (take (Suc k) ?t1)
        = sum_list (take (Suc k) t) + (if nat st < Suc k then 1 else 0)"
      by (rule sum_list_take_update [OF a1])
    finally show ?thesis using b by (auto split: if_splits)
  qed
  show ?case
    unfolding step using t' ih pre by (simp add: covering_count_Cons pair)
qed

section \<open>calculateDepth as a whole\<close>

lemma getReads_preprocessReadData:
  "getReads (preprocessReadData s e) e = sorted_reads s e"
  by (simp add: getReads_def preprocessReadData_def sorted_reads_def)

lemma mset_sorted_reads: "mset (sorted_reads s e) = mset (getReads s e)"
  by (simp add: sorted_reads_def)

lemma set_sorted_reads: "set (sorted_reads s e) = set (getReads s e)"
  by (simp add: sorted_reads_def)

lemma getMaxPosition_sorted_reads:
  "getMaxPosition (sorted_reads s e) = getMaxPosition (getReads s e)"
  by (rule getMaxPosition_set) (rule set_sorted_reads)

lemma calculateDepth_unfold:
  "calculateDepth s e =
     (case tally_loop (sorted_reads s e)
             (replicate (nat (getMaxPosition (getReads s e) + 1)) 0) of
        Inl err \<Rightarrow> (Inl err, preprocessReadData s e, e)
      | Inr t \<Rightarrow>
          (Inr (), fst (new_int_list (preprocessReadData s e) (running_sums 0 t)),
           e\<lparr>depths := next_addr s\<rparr>))"
proof -
  have rs: "read_lists (preprocessReadData s e) (reads e) = sorted_reads s e"
    using getReads_preprocessReadData [of s e] by (simp add: getReads_def)
  have nx: "next_addr (preprocessReadData s e) = next_addr s"
    by (simp add: preprocessReadData_def)
  show ?thesis
    by (simp add: calculateDepth_def Let_def rs getMaxPosition_sorted_reads sums_loop_all
        new_int_list_def nx split: sum.split)
qed

lemma getDepths_new:
  "getDepths (fst (new_int_list s xs)) (e\<lparr>depths := next_addr s\<rparr>) = xs"
  by (simp add: getDepths_def new_int_list_def)

lemma calculateDepth_nonneg:
  assumes nn: "nonneg_reads (getReads s e)"
  shows "\<exists>t. calculateDepth s e =
        (Inr (), fst (new_int_list (preprocessReadData s e) (running_sums 0 t)),
         e\<lparr>depths := next_addr s\<rparr>) \<and>
      length t = nat (getMaxPosition (getReads s e) + 1) \<and>
      (\<forall>k. sum_list (take (Suc k) t) = covering_count (getReads s e) (int k))"
proof -
  let ?n = "nat (getMaxPosition (getReads s e) + 1)"
  let ?z = "replicate ?n (0::int)"
  have "\<forall>pair\<in>set (sorted_reads s e).
      0 \<le> fst pair \<and> 0 \<le> snd pair \<and> fst pair + snd pair < int (length ?z)"
  proof
    fix pair assume "pair \<in> set (sorted_reads s e)"
    then have m: "pair \<in> set (getReads s e)" by (simp add: set_sorted_reads)
    with nn have "0 \<le> fst pair \<and> 0 \<le> snd pair"
      by (auto simp: nonneg_reads_def list_all_iff)
    moreover from m have "fst pair + snd pair \<le> getMaxPosition (getReads s e)"
      by (rule getMaxPosition_upper)
    ultimately show "0 \<le> fst pair \<and> 0 \<le> snd pair \<and> fst pair + snd pair < int (length ?z)"
      by simp
  qed
  from tally_loop_prefix [OF this] obtain t where
    t: "tally_loop (sorted_reads s e) ?z = Inr t" and len: "length t = length ?z" and
    pre: "\<And>k. sum_list (take (Suc k) t)
        = sum_list (take (Suc k) ?z) + covering_count (sorted_reads s e) (int k)"
    by auto
  have zero: "sum_list (take m ?z) = 0" for m
    by (simp add: take_replicate sum_list_replicate)
  have cc: "covering_count (sorted_reads s e) p = covering_count (getReads s e) p" for p
    by (rule covering_count_mset) (rule mset_sorted_reads)
  have "calculateDepth s e =
        (Inr (), fst (new_int_list (preprocessReadData s e) (running_sums 0 t)),
         e\<lparr>depths := next_addr s\<rparr>)"
    by (simp add: calculateDepth_unfold t)
  moreover have "length t = ?n" using len by simp
  moreover have "\<forall>k. sum_list (take (Suc k) t) = covering_count (getReads s e) (int k)"
    unfolding pre zero cc by simp
  ultimately show ?thesis by blast
qed

lemma next_addr_preprocessReadData [simp]:
  "next_addr (preprocessReadData s e) = next_addr s"
  by (simp add: preprocessReadData_def)

lemma calculateDepth_nonneg_result:
  assumes nn: "nonneg_reads (getReads s e)"
    and c: "calculateDepth s e = (res, s', e')"
  shows "res = Inr ()"
    and "length (getDepths s' e') = nat (getMaxPosition (getReads s e) + 1)"
    and "k < length (getDepths s' e') \<Longrightarrow>
           getDepths s' e' ! k = covering_count (getReads s e) (int k)"
proof -
  from calculateDepth_nonneg [OF nn] obtain t where
    u: "calculateDepth s e =
        (Inr (), fst (new_int_list (preprocessReadData s e) (running_sums 0 t)),
         e\<lparr>depths := next_addr s\<rparr>)" and
    len: "length t = nat (getMaxPosition (getReads s e) + 1)" and
    pre: "\<And>j. sum_list (take (Suc j) t) = covering_count (getReads s e) (int j)"
    by blast
  from u c show "res = Inr ()" by simp
  from u c have s': "s' = fst (new_int_list (preprocessReadData s e) (running_sums 0 t))"
    and e': "e' = e\<lparr>depths := next_addr (preprocessReadData s e)\<rparr>"
    by simp_all
  have d: "getDepths s' e' = running_sums 0 t"
    unfolding s' e' by (rule getDepths_new)
  show "length (getDepths s' e') = nat (getMaxPosition (getReads s e) + 1)"
    by (simp add: d len)
  show "getDepths s' e' ! k = covering_count (getReads s e) (int k)"
    if "k < length (getDepths s' e')"
  proof -
    from that have "k < length t" by (simp add: d)
    from running_sums_nth [OF this, of 0] show ?thesis by (simp add: d pre)
  qed
qed

lemma test_depth_calculations_reads:
  "test_depth_calculations_rdc = (s, e) \<Longrightarrow> getReads s e = [(10, 30), (20, 40)]"
  by (auto simp: test_depth_calculations_rdc_def new_read_list_def new_int_list_def
      module_store_def init_def getReads_def)

lemma empty_rdc_reads: "empty_rdc = (s, e) \<Longrightarrow> getReads s e = []"
  by (auto simp: empty_rdc_def new_read_list_def new_int_list_def module_store_def
      init_def getReads_def)

lemma tally_loop_length:
  "tally_loop rs t = Inr t' \<Longrightarrow> length t' = length t"
proof (induction rs arbitrary: t)
  case Nil
  then show ?case by simp
next
  case (Cons pair rs)
  then show ?case
    by (auto split: sum.splits dest!: list_iadd_item_length)
qed

lemma tally_loop_error_iff:
  "tally_loop rs t = Inl IndexError \<longleftrightarrow>
     (\<exists>pair\<in>set rs.
        \<not> (- int (length t) \<le> fst pair \<and> fst pair < int (length t) \<and>
           - int (length t) \<le> fst pair + snd pair \<and> fst pair + snd pair < int (length t)))"
proof (induction rs arbitrary: t)
  case Nil
  then show ?case by simp
next
  case (Cons pair rs)
  show ?case
  proof (cases "list_iadd_item t (fst pair) 1")
    case (Inl e1)
    then have "\<not> (- int (length t) \<le> fst pair \<and> fst pair < int (length t))"
      by (simp add: list_iadd_item_error_iff)
    with Inl show ?thesis by (cases e1) auto
  next
    case t1: (Inr t1)
    then have ok1: "- int (length t) \<le> fst pair \<and> fst pair < int (length t)"
      using list_iadd_item_error_iff [of t "fst pair" 1 IndexError] by auto
    have l1: "length t1 = length t" using t1 by (rule list_iadd_item_length)
    show ?thesis
    proof (cases "list_iadd_item t1 (fst pair + snd pair) (- 1)")
      case (Inl e2)
      then have "\<not> (- int (length t) \<le> fst pair + snd pair \<and> fst pair + snd pair < int (length t))"
        by (simp add: list_iadd_item_error_iff l1)
      with Inl t1 show ?thesis by (cases e2) auto
    next
      case t2: (Inr t2)
      then have ok2: "- int (length t) \<le> fst pair + snd pair \<and> fst pair + snd pair < int (length t)"
        using list_iadd_item_error_iff [of t1 "fst pair + snd pair" "- 1" IndexError] l1 by auto
      have l2: "length t2 = length t" using t2 l1 by (simp add: list_iadd_item_length)
      show ?thesis
        using t1 t2 ok1 ok2 Cons.IH [of t2] by (simp add: l2)
    qed
  qed
qed

lemma run_call_depths:
  "loci e \<noteq> depths e \<Longrightarrow> getDepths (run_call e s c) e = getDepths s e"
  by (cases c) (simp_all add: getDepths_def addReads_def addLoci_def preprocessReadData_def)

lemma run_calls_depths:
  "loci e \<noteq> depths e \<Longrightarrow> getDepths (run_calls s e calls) e = getDepths s e"
  unfolding run_calls_def
  by (induction calls arbitrary: s) (simp_all add: run_call_depths)

lemma init_depths:
  assumes "init s0 reads_arg loci_arg = (s, e)"
  shows "depths e = next_addr s0" and "getDepths s e = []"
    and "loci e = (case loci_arg of None \<Rightarrow> default_loci | Some a \<Rightarrow> a)"
  using assms by (auto simp: init_def new_int_list_def getDepths_def)

lemma addReads_other_engine:
  "reads a \<noteq> reads b \<Longrightarrow> getReads (addReads s a readslist) b = getReads s b"
  by (simp add: getReads_def addReads_def)

lemma addLoci_other_engine:
  "loci a \<noteq> loci b \<Longrightarrow> getLoci (addLoci s a locilist) b = getLoci s b"
  by (simp add: getLoci_def addLoci_def)

lemma sorted_reads_lexicographic:
  "sorted_wrt (\<lambda>p q. fst p < fst q \<or> (fst p = fst q \<and> snd p \<le> snd q)) (sorted_reads s e)"
proof -
  have "sorted (map (\<lambda>pair. (fst pair, snd pair)) (sorted_reads s e))"
    unfolding sorted_reads_def by (rule sorted_sort_key)
  then have "sorted_wrt (\<le>) (sorted_reads s e)" by simp
  then show ?thesis
    by (rule sorted_wrt_mono_rel [rotated]) (auto simp: less_eq_prod_def)
qed

text \<open>The assertion of test_depth_calculations: the depths at the loci are 0, 1 and 2.\<close>

lemma test_depth_calculations_expected:
  "case test_depth_calculations_rdc of (s, rdc) \<Rightarrow>
     (case calculateDepth s rdc of (res, s', rdc') \<Rightarrow>
        res = Inr () \<and> map (depthAt s' rdc') (getLoci s' rdc') = [Inr 0, Inr 1, Inr 2])"
  by code_simp

section \<open>The depth profile of well-formed reads\<close>

text \<open>
  C1. Let every interval of the ReadSet have a non-negative start and a non-negative
  length. Then calculateDepth returns normally, and at every position \<open>p\<close> with
  \<open>0 \<le> p < len(depths)\<close> the stored depth, read by indexing, is the number of
  intervals \<open>(st, l)\<close> of the ReadSet with \<open>st \<le> p < st + l\<close>.
\<close>

theorem calculateDepth_covering_count:
  assumes "nonneg_reads (getReads s e)"
    and "calculateDepth s e = (res, s', e')"
    and "0 \<le> p" and "p < int (length (getDepths s' e'))"
  shows "res = Inr () \<and> depthAt s' e' p = Inr (covering_count (getReads s e) p)"
proof -
  have lt: "nat p < length (getDepths s' e')" using assms(3,4) by simp
  have "depthAt s' e' p = Inr (getDepths s' e' ! nat p)"
    using assms(3,4) by (simp add: depthAt_def list_getitem_def list_index_nonneg)
  also have "getDepths s' e' ! nat p = covering_count (getReads s e) p"
    using calculateDepth_nonneg_result(3) [OF assms(1,2) lt] assms(3) by simp
  finally show ?thesis
    using calculateDepth_nonneg_result(1) [OF assms(1,2)] by simp
qed

theorem calculateDepth_covering_count_witness:
  "case test_depth_calculations_rdc of (s, e) \<Rightarrow>
     (case calculateDepth s e of (res, s', e') \<Rightarrow>
        nonneg_reads (getReads s e) \<and> (0::int) \<le> 30 \<and> 30 < int (length (getDepths s' e')) \<and>
        res = Inr () \<and> depthAt s' e' 30 = Inr 2)"
proof -
  obtain s e where se: "test_depth_calculations_rdc = (s, e)"
    by (cases test_depth_calculations_rdc)
  obtain res s' e' where c: "calculateDepth s e = (res, s', e')"
    by (cases "calculateDepth s e")
  have rs: "getReads s e = [(10, 30), (20, 40)]"
    by (rule test_depth_calculations_reads [OF se])
  have nn: "nonneg_reads (getReads s e)" by (simp add: rs nonneg_reads_def)
  have len: "30 < int (length (getDepths s' e'))"
    using calculateDepth_nonneg_result(2) [OF nn c] by (simp add: rs getMaxPosition_def)
  have "res = Inr () \<and> depthAt s' e' 30 = Inr (covering_count (getReads s e) 30)"
    using nn c _ len by (rule calculateDepth_covering_count) simp
  then show ?thesis using nn len by (simp add: se c rs covering_count_def)
qed

text \<open>
  C2. For a ReadSet of non-negative intervals, the depth profile that calculateDepth
  stores has length \<open>maxEnd + 1\<close>, where \<open>maxEnd\<close> is the largest \<open>start + length\<close>
  over the ReadSet, or 0 if the ReadSet is empty.
\<close>

theorem calculateDepth_length:
  assumes "nonneg_reads (getReads s e)"
    and "calculateDepth s e = (res, s', e')"
  shows "int (length (getDepths s' e')) = maxEnd_spec (getReads s e) + 1"
proof -
  have "int (length (getDepths s' e')) = getMaxPosition (getReads s e) + 1"
    using calculateDepth_nonneg_result(2) [OF assms] getMaxPosition_nonneg [of "getReads s e"]
    by simp
  then show ?thesis
    by (simp add: getMaxPosition_maxEnd_spec [OF assms(1)])
qed

theorem calculateDepth_length_witness:
  "case test_depth_calculations_rdc of (s, e) \<Rightarrow>
     (case calculateDepth s e of (res, s', e') \<Rightarrow>
        nonneg_reads (getReads s e) \<and> maxEnd_spec (getReads s e) = 60 \<and>
        int (length (getDepths s' e')) = 61)"
proof -
  obtain s e where se: "test_depth_calculations_rdc = (s, e)"
    by (cases test_depth_calculations_rdc)
  obtain res s' e' where c: "calculateDepth s e = (res, s', e')"
    by (cases "calculateDepth s e")
  have rs: "getReads s e = [(10, 30), (20, 40)]"
    by (rule test_depth_calculations_reads [OF se])
  have nn: "nonneg_reads (getReads s e)" by (simp add: rs nonneg_reads_def)
  have m: "maxEnd_spec (getReads s e) = 60" by (simp add: rs maxEnd_spec_def)
  from calculateDepth_length [OF nn c] m nn show ?thesis by (simp add: se c)
qed

text \<open>
  C7. For the empty ReadSet, calculateDepth returns normally and stores the single-element
  depth profile \<open>[0]\<close>.
\<close>

theorem calculateDepth_empty:
  assumes "getReads s e = []"
    and "calculateDepth s e = (res, s', e')"
  shows "res = Inr () \<and> getDepths s' e' = [0]"
proof -
  have "sorted_reads s e = []" by (simp add: sorted_reads_def assms(1))
  then have "calculateDepth s e =
      (Inr (), fst (new_int_list (preprocessReadData s e) [0]),
       e\<lparr>depths := next_addr (preprocessReadData s e)\<rparr>)"
    by (simp add: calculateDepth_unfold assms(1) getMaxPosition_def)
  with assms(2) have "res = Inr ()"
    and "s' = fst (new_int_list (preprocessReadData s e) [0])"
    and "e' = e\<lparr>depths := next_addr (preprocessReadData s e)\<rparr>"
    by simp_all
  then show ?thesis by (simp add: getDepths_def new_int_list_def)
qed

theorem calculateDepth_empty_witness:
  "case empty_rdc of (s, e) \<Rightarrow>
     (case calculateDepth s e of (res, s', e') \<Rightarrow>
        getReads s e = [] \<and> res = Inr () \<and> getDepths s' e' = [0])"
proof -
  obtain s e where se: "empty_rdc = (s, e)" by (cases empty_rdc)
  obtain res s' e' where c: "calculateDepth s e = (res, s', e')"
    by (cases "calculateDepth s e")
  have rs: "getReads s e = []" by (rule empty_rdc_reads [OF se])
  from calculateDepth_empty [OF rs c] rs show ?thesis by (simp add: se c)
qed

text \<open>
  C9. Let every interval of the ReadSet have a non-negative start and a non-negative
  length. Then every index the accumulation uses lies in the delta array of size
  \<open>maxEnd + 1\<close>: the start and the unconditionally decremented \<open>start + length\<close>
  of every read are in \<open>[0, len(tally))\<close>, both loops finish without an IndexError, and
  calculateDepth returns normally.
\<close>

theorem calculateDepth_indices_in_bounds:
  assumes "nonneg_reads (getReads s e)"
  shows "let rs = getReads (preprocessReadData s e) e;
             tally = replicate (nat (getMaxPosition rs + 1)) (0::int)
         in (\<forall>pair\<in>set rs.
               0 \<le> fst pair \<and> fst pair < int (length tally) \<and>
               0 \<le> fst pair + snd pair \<and> fst pair + snd pair < int (length tally)) \<and>
            (\<exists>t sums. tally_loop rs tally = Inr t \<and> length t = length tally \<and>
               sums_loop (map int [0..<length t]) t 0 = Inr sums) \<and>
            fst (calculateDepth s e) = Inr ()"
proof -
  let ?rs = "sorted_reads s e"
  let ?tally = "replicate (nat (getMaxPosition ?rs + 1)) (0::int)"
  have b: "\<forall>pair\<in>set ?rs.
      0 \<le> fst pair \<and> fst pair < int (length ?tally) \<and>
      0 \<le> fst pair + snd pair \<and> fst pair + snd pair < int (length ?tally)"
  proof
    fix pair assume "pair \<in> set ?rs"
    then have m: "pair \<in> set (getReads s e)" by (simp add: set_sorted_reads)
    with assms have "0 \<le> fst pair \<and> 0 \<le> snd pair"
      by (auto simp: nonneg_reads_def list_all_iff)
    moreover from m have "fst pair + snd pair \<le> getMaxPosition (getReads s e)"
      by (rule getMaxPosition_upper)
    ultimately show "0 \<le> fst pair \<and> fst pair < int (length ?tally) \<and>
        0 \<le> fst pair + snd pair \<and> fst pair + snd pair < int (length ?tally)"
      by (simp add: getMaxPosition_sorted_reads)
  qed
  then have "\<forall>pair\<in>set ?rs. 0 \<le> fst pair \<and> 0 \<le> snd pair \<and>
      fst pair + snd pair < int (length ?tally)"
  proof (intro ballI)
    fix pair assume p: "pair \<in> set ?rs"
    then have "pair \<in> set (getReads s e)" by (simp add: set_sorted_reads)
    with assms have "0 \<le> snd pair" by (auto simp: nonneg_reads_def list_all_iff)
    with b p show "0 \<le> fst pair \<and> 0 \<le> snd pair \<and> fst pair + snd pair < int (length ?tally)"
      by blast
  qed
  from tally_loop_prefix [OF this] obtain t where
    t: "tally_loop ?rs ?tally = Inr t" "length t = length ?tally" by blast
  have "fst (calculateDepth s e) = Inr ()"
    using t(1) by (simp add: calculateDepth_unfold getMaxPosition_sorted_reads)
  with b t sums_loop_all [of t] show ?thesis
    by (simp add: getReads_preprocessReadData Let_def del: length_replicate)
qed

theorem calculateDepth_indices_in_bounds_witness:
  "case test_depth_calculations_rdc of (s, e) \<Rightarrow>
     nonneg_reads (getReads s e) \<and>
     getReads (preprocessReadData s e) e = [(10, 30), (20, 40)] \<and>
     length (replicate (nat (getMaxPosition (getReads (preprocessReadData s e) e) + 1)) (0::int)) = 61 \<and>
     fst (calculateDepth s e) = Inr ()"
proof -
  obtain s e where se: "test_depth_calculations_rdc = (s, e)"
    by (cases test_depth_calculations_rdc)
  have rs: "getReads s e = [(10, 30), (20, 40)]"
    by (rule test_depth_calculations_reads [OF se])
  have nn: "nonneg_reads (getReads s e)" by (simp add: rs nonneg_reads_def)
  have srt: "getReads (preprocessReadData s e) e = [(10, 30), (20, 40)]"
    by (simp add: getReads_preprocessReadData sorted_reads_def rs)
  from calculateDepth_indices_in_bounds [OF nn] have "fst (calculateDepth s e) = Inr ()"
    by (simp add: Let_def)
  with nn srt show ?thesis by (simp add: se getMaxPosition_def)
qed

section \<open>Atomicity of calculateDepth\<close>

text \<open>
  C6. calculateDepth is atomic with respect to the stored depths. When it raises, the
  engine still refers to its old depth list and no list of integers in the store has
  changed, so the stored depths are what they were. When it returns, the stored depths are
  the running sums of the delta array to which every read of the ReadSet has been applied.
\<close>

theorem calculateDepth_atomic:
  assumes "calculateDepth s e = (res, s', e')"
  shows "case res of
           Inl err \<Rightarrow> depths e' = depths e \<and> int_lists s' = int_lists s \<and>
                      getDepths s' e' = getDepths s e
         | Inr u \<Rightarrow>
             (\<exists>t. tally_loop (getReads s' e')
                     (replicate (nat (getMaxPosition (getReads s' e') + 1)) 0) = Inr t \<and>
                  getDepths s' e' = running_sums 0 t)"
proof (cases "tally_loop (sorted_reads s e)
               (replicate (nat (getMaxPosition (getReads s e) + 1)) 0)")
  case (Inl err)
  with assms have "res = Inl err" "s' = preprocessReadData s e" "e' = e"
    by (auto simp: calculateDepth_unfold)
  then show ?thesis
    by (simp add: preprocessReadData_def getDepths_def)
next
  case (Inr t)
  with assms have res: "res = Inr ()"
    and s': "s' = fst (new_int_list (preprocessReadData s e) (running_sums 0 t))"
    and e': "e' = e\<lparr>depths := next_addr (preprocessReadData s e)\<rparr>"
    by (auto simp: calculateDepth_unfold)
  have d: "getDepths s' e' = running_sums 0 t"
    unfolding s' e' by (rule getDepths_new)
  have r: "getReads s' e' = sorted_reads s e"
    by (simp add: s' e' getReads_def new_int_list_def preprocessReadData_def sorted_reads_def)
  show ?thesis
    using Inr by (simp add: res d r getMaxPosition_sorted_reads)
qed

theorem calculateDepth_atomic_witness:
  "case recomputed_rdc of (s, e) \<Rightarrow>
     (case calculateDepth s e of (res, s', e') \<Rightarrow>
        getReads s e = [(0, 1), (5, - 3)] \<and> getDepths s e = [1, 0] \<and>
        res = Inl IndexError \<and> getDepths s' e' = [1, 0])"
proof -
  obtain s e where se: "recomputed_rdc = (s, e)" by (cases recomputed_rdc)
  obtain res s' e' where c: "calculateDepth s e = (res, s', e')"
    by (cases "calculateDepth s e")
  have ev: "case recomputed_rdc of (s, e) \<Rightarrow>
      getReads s e = [(0, 1), (5, - 3)] \<and> getDepths s e = [1, 0] \<and>
      fst (calculateDepth s e) = Inl IndexError"
    by code_simp
  then have pre: "getReads s e = [(0, 1), (5, - 3)]" "getDepths s e = [1, 0]"
    and res: "res = Inl IndexError"
    by (simp_all add: se c)
  from calculateDepth_atomic [OF c] res have "getDepths s' e' = getDepths s e" by simp
  with pre res show ?thesis by (simp add: se c)
qed

section \<open>preprocessReadData\<close>

text \<open>
  C8. preprocessReadData leaves the engine's reads in ascending order of the key
  \<open>(start, length)\<close>: of two reads the earlier one has the smaller start, or the same
  start and a length that is not larger. The multiset of intervals is unchanged;
  on the reads \<open>[(20,40),(10,30),(20,10)]\<close> of test_data_preprocessing the result is
  \<open>[(10,30),(20,10),(20,40)]\<close>.
\<close>

theorem preprocessReadData_sorts:
  "sorted_wrt (\<lambda>p q. fst p < fst q \<or> (fst p = fst q \<and> snd p \<le> snd q))
     (getReads (preprocessReadData s e) e) \<and>
   mset (getReads (preprocessReadData s e) e) = mset (getReads s e) \<and>
   (case test_data_preprocessing_rdc of (s0, rdc) \<Rightarrow>
      getReads s0 rdc = [(20, 40), (10, 30), (20, 10)] \<and>
      getReads (preprocessReadData s0 rdc) rdc = [(10, 30), (20, 10), (20, 40)])"
proof -
  have "case test_data_preprocessing_rdc of (s0, rdc) \<Rightarrow>
      getReads s0 rdc = [(20, 40), (10, 30), (20, 10)] \<and>
      getReads (preprocessReadData s0 rdc) rdc = [(10, 30), (20, 10), (20, 40)]"
    by code_simp
  then show ?thesis
    by (simp add: getReads_preprocessReadData mset_sorted_reads sorted_reads_lexicographic)
qed

section \<open>Queries outside the profile\<close>

text \<open>
  C3, as claimed, fails: the profile computed from the empty ReadSet is \<open>[0]\<close>, and the
  locus \<open>-1\<close> is answered with the depth 0 instead of an error.
\<close>

theorem depthAt_negative_locus_counterexample:
  "case empty_rdc of (s, e) \<Rightarrow>
     (case calculateDepth s e of (res, s', e') \<Rightarrow>
        res = Inr () \<and> getDepths s' e' = [0] \<and> depthAt s' e' (- 1) = Inr 0)"
  by code_simp

text \<open>
  C3, amended. Indexing the depths at a locus raises IndexError exactly when
  \<open>locus \<ge> len(depths)\<close> or \<open>locus < -len(depths)\<close>; a locus with
  \<open>-len(depths) \<le> locus < 0\<close> is answered with the depth at position
  \<open>len(depths) + locus\<close>, and any other locus with the depth at that position.
\<close>

theorem depthAt_characterisation:
  "depthAt s e locus =
     (if int (length (getDepths s e)) \<le> locus \<or> locus < - int (length (getDepths s e))
      then Inl IndexError
      else if locus < 0 then Inr (getDepths s e ! nat (int (length (getDepths s e)) + locus))
      else Inr (getDepths s e ! nat locus))"
  by (simp add: depthAt_def list_getitem_def list_index_def)

text \<open>
  C4, as claimed, fails: on an engine that never computed, getDepths returns the empty
  list, and a query raises IndexError, the very error that a locus beyond a computed
  profile raises.
\<close>

theorem depthAt_fresh_counterexample:
  "case empty_rdc of (s, e) \<Rightarrow>
     (case calculateDepth s e of (res, s', e') \<Rightarrow>
        getDepths s e = [] \<and> depthAt s e 0 = Inl IndexError \<and>
        res = Inr () \<and> getDepths s' e' = [0] \<and> depthAt s' e' 1 = Inl IndexError \<and>
        depthAt s e 0 = depthAt s' e' 1)"
  by code_simp

text \<open>
  C4, amended. Take an engine fresh from \<open>__init__\<close> whose loci list existed before the
  call, and run any sequence of addReads, addLoci and preprocessReadData on it, never
  calculateDepth. Then getDepths returns the empty list and indexing the depths raises
  IndexError at every locus.
\<close>

theorem depthAt_never_computed:
  assumes "init s0 reads_arg loci_arg = (s, e)"
    and "loci e < next_addr s0"
  shows "getDepths (run_calls s e calls) e = [] \<and>
         depthAt (run_calls s e calls) e locus = Inl IndexError"
proof -
  have "loci e \<noteq> depths e" using init_depths(1) [OF assms(1)] assms(2) by simp
  then have "getDepths (run_calls s e calls) e = []"
    by (simp add: run_calls_depths init_depths(2) [OF assms(1)])
  then show ?thesis by (simp add: depthAt_def list_getitem_def list_index_def)
qed

theorem depthAt_never_computed_witness:
  "case init module_store None None of (s, e) \<Rightarrow>
     loci e < next_addr module_store \<and>
     getDepths (run_calls s e [AddReads [(10, 30)], AddLoci [5], PreprocessReadData]) e = [] \<and>
     depthAt (run_calls s e [AddReads [(10, 30)], AddLoci [5], PreprocessReadData]) e 5
       = Inl IndexError"
proof -
  obtain s e where i: "init module_store None None = (s, e)"
    by (cases "init module_store None None")
  have l: "loci e < next_addr module_store"
    using init_depths(3) [OF i] by (simp add: default_loci_def module_store_def)
  from depthAt_never_computed [OF i l, of "[AddReads [(10, 30)], AddLoci [5], PreprocessReadData]" 5] l
  show ?thesis by (simp add: i)
qed

section \<open>Intervals with a negative start or length\<close>

text \<open>
  C5, as claimed, fails: the read \<open>(-1, 1)\<close> is accepted by addReads, and calculateDepth
  returns normally after applying its delta at the index \<open>-1\<close>, counted from the end.
\<close>

theorem negative_start_counterexample:
  "case negative_start_rdc of (s, e) \<Rightarrow>
     (case calculateDepth s e of (res, s', e') \<Rightarrow>
        getReads s e = [(- 1, 1)] \<and> res = Inr () \<and> getDepths s' e' = [0])"
  by code_simp

text \<open>
  C5, amended. addReads validates nothing: it appends the given intervals as they are.
  calculateDepth raises IndexError exactly when some read has its start or its
  \<open>start + length\<close> outside \<open>[-(maxEnd + 1), maxEnd + 1)\<close>, where \<open>maxEnd\<close> is
  the value of getMaxPosition; in every other case it returns normally.
\<close>

theorem calculateDepth_IndexError_iff:
  "getReads (addReads s e readslist) e = getReads s e @ readslist \<and>
   (fst (calculateDepth s e) = Inl IndexError \<longleftrightarrow>
      (\<exists>pair\<in>set (getReads s e).
         \<not> (- (getMaxPosition (getReads s e) + 1) \<le> fst pair \<and>
            fst pair < getMaxPosition (getReads s e) + 1 \<and>
            - (getMaxPosition (getReads s e) + 1) \<le> fst pair + snd pair \<and>
            fst pair + snd pair < getMaxPosition (getReads s e) + 1)))"
proof -
  let ?n = "nat (getMaxPosition (getReads s e) + 1)"
  have n: "int ?n = getMaxPosition (getReads s e) + 1"
    using getMaxPosition_nonneg [of "getReads s e"] by simp
  have "fst (calculateDepth s e) = Inl IndexError \<longleftrightarrow>
      tally_loop (sorted_reads s e) (replicate ?n 0) = Inl IndexError"
    by (simp add: calculateDepth_unfold split: sum.split)
  also have "\<dots> \<longleftrightarrow> (\<exists>pair\<in>set (getReads s e).
         \<not> (- int ?n \<le> fst pair \<and> fst pair < int ?n \<and>
            - int ?n \<le> fst pair + snd pair \<and> fst pair + snd pair < int ?n))"
    by (simp only: tally_loop_error_iff set_sorted_reads length_replicate)
  finally show ?thesis
    unfolding n by (simp add: getReads_def addReads_def)
qed

theorem calculateDepth_IndexError_iff_witness:
  "case recomputed_rdc of (s, e) \<Rightarrow>
     getReads s e = [(0, 1), (5, - 3)] \<and> getMaxPosition (getReads s e) = 2 \<and>
     fst (calculateDepth s e) = Inl IndexError"
proof -
  obtain s e where se: "recomputed_rdc = (s, e)" by (cases recomputed_rdc)
  have "case recomputed_rdc of (s, e) \<Rightarrow> getReads s e = [(0, 1), (5, - 3)]"
    by code_simp
  then have rs: "getReads s e = [(0, 1), (5, - 3)]" by (simp add: se)
  have m: "getMaxPosition (getReads s e) = 2" by (simp add: rs getMaxPosition_def)
  from calculateDepth_IndexError_iff [of s e "[]"]
  have "fst (calculateDepth s e) = Inl IndexError" by (simp add: m) (simp add: rs)
  with rs m show ?thesis by (simp add: se)
qed

section \<open>Engines built with the default arguments\<close>

text \<open>
  C10 does not hold of the code. Two engines built without arguments hold the same two
  default list objects, so reads and loci added to the first are returned by the second.
\<close>

theorem default_rdcs_share_lists:
  "case two_default_rdcs of (s, a, b) \<Rightarrow>
     getReads s b = [] \<and> getReads (addReads s a [(1, 2)]) b = [(1, 2)] \<and>
     getLoci s b = [] \<and> getLoci (addLoci s a [7]) b = [7]"
  by code_simp

end
